theory Spec2Isabelle
  imports Main "HOL-Library.Sublist"
begin

section \<open>Strings, characters and the string primitives the program uses\<close>

text \<open>
  A Python \<open>str\<close> is modelled as a \<^typ>\<open>string\<close>: a list of characters, each one a
  code point in the range 0..255. On that range the character classes of the program
  are exactly the ones below: the decimal digits matched by \<open>\d\<close> are \<open>0\<close>..\<open>9\<close>, and
  the whitespace of \<open>str.split()\<close> and of \<open>int()\<close> is 0x09..0x0D, 0x1C..0x20, 0x85, 0xA0.
\<close>

definition is_digit :: "char \<Rightarrow> bool" where
  "is_digit c = (c \<in> set ''0123456789'')"

definition is_space :: "char \<Rightarrow> bool" where
  "is_space c = (of_char c \<in> set [9, 10, 11, 12, 13, 28, 29, 30, 31, 32, 133, 160 :: nat])"

definition digit_val :: "char \<Rightarrow> int" where
  "digit_val c = int (of_char c) - 48"

text \<open>\<open>s.strip()\<close>, the trimming that \<open>int(s)\<close> applies to its argument.\<close>

definition py_strip :: "string \<Rightarrow> string" where
  "py_strip s = rev (dropWhile is_space (rev (dropWhile is_space s)))"

text \<open>
  \<open>int(s)\<close> on the arguments the program passes: decimal digits, possibly surrounded by
  whitespace (every call is guarded by a regular expression that admits nothing else).
\<close>

definition py_int :: "string \<Rightarrow> int" where
  "py_int s = foldl (\<lambda>n c. 10 * n + digit_val c) 0 (py_strip s)"

text \<open>\<open>s.split(sep)\<close> for a separator of one character: never empty, \<open>''''\<close> gives \<open>['''']\<close>.\<close>

fun split_on :: "char \<Rightarrow> string \<Rightarrow> string list" where
  "split_on sep [] = [[]]"
| "split_on sep (c # cs) =
     (if c = sep then [] # split_on sep cs
      else (c # hd (split_on sep cs)) # tl (split_on sep cs))"

text \<open>
  \<open>s.split()\<close>: skip whitespace, collect a token up to the next whitespace, repeat.
  The first argument is the token collected so far.
\<close>

fun split_ws :: "string \<Rightarrow> string \<Rightarrow> string list" where
  "split_ws cur [] = (if cur = [] then [] else [cur])"
| "split_ws cur (c # cs) =
     (if is_space c then (if cur = [] then split_ws [] cs else cur # split_ws [] cs)
      else split_ws (cur @ [c]) cs)"

definition py_split :: "string \<Rightarrow> string list" where
  "py_split s = split_ws [] s"

text \<open>\<open>sep.join(xs)\<close>.\<close>

fun py_join :: "string \<Rightarrow> string list \<Rightarrow> string" where
  "py_join sep [] = []"
| "py_join sep [x] = x"
| "py_join sep (x # y # ys) = x @ sep @ py_join sep (y # ys)"

section \<open>The regular expressions of \<open>expand_expression\<close>\<close>

text \<open>
  In Python's \<open>re\<close>, \<open>$\<close> matches at the end of the string and also just before a
  newline that is the last character. None of the patterns can match a newline, so
  \<open>^P$\<close> matches \<open>s\<close> exactly when \<open>P\<close> matches the whole of \<open>chomp s\<close>.
\<close>

definition chomp :: "string \<Rightarrow> string" where
  "chomp s = (if s \<noteq> [] \<and> last s = CHR 0x0A then butlast s else s)"

text \<open>\<open>\d{1,2}\<close> against a whole string.\<close>

definition digits12 :: "string \<Rightarrow> bool" where
  "digits12 s = ((length s = 1 \<or> length s = 2) \<and> list_all is_digit s)"

text \<open>\<open>(\d{1,2})-(\d{1,2})\<close> against a whole string, with its two groups.\<close>

definition range_groups :: "string \<Rightarrow> (string \<times> string) option" where
  "range_groups s =
     (case split_on (CHR ''-'') s of
        [g1, g2] \<Rightarrow> if digits12 g1 \<and> digits12 g2 then Some (g1, g2) else None
      | _ \<Rightarrow> None)"

text \<open>\<open>re.search(r"^(\d{1,2})-(\d{1,2})$", expression)\<close>.\<close>

definition dash_matches :: "string \<Rightarrow> (string \<times> string) option" where
  "dash_matches expression = range_groups (chomp expression)"

text \<open>\<open>re.match(r"^\d{1,2}(?:,\d{1,2})*$", expression)\<close>.\<close>

definition list_matches :: "string \<Rightarrow> bool" where
  "list_matches expression = list_all digits12 (split_on (CHR '','') (chomp expression))"

text \<open>\<open>\*|\d{1,2}-\d{1,2}\<close> against a whole string.\<close>

definition base_pattern :: "string \<Rightarrow> bool" where
  "base_pattern g = (g = ''*'' \<or> range_groups g \<noteq> None)"

text \<open>\<open>re.search(r"^(\*|\d{1,2}-\d{1,2})/(\d{1,2})$", expression)\<close>, with its two groups.\<close>

definition interval_matches :: "string \<Rightarrow> (string \<times> string) option" where
  "interval_matches expression =
     (case split_on (CHR ''/'') (chomp expression) of
        [g1, g2] \<Rightarrow>
          if base_pattern g1 \<and> digits12 g2 then Some (g1, g2) else None
      | _ \<Rightarrow> None)"

text \<open>\<open>re.match(r"^\d{1,2}$", expression)\<close>.\<close>

definition single_matches :: "string \<Rightarrow> bool" where
  "single_matches expression = digits12 (chomp expression)"

section \<open>Errors\<close>

text \<open>
  Every \<open>raise\<close> of the program is a \<open>ValueError\<close>; the constructors below are the raise
  sites, told apart by their messages, and carry what the message interpolates:
  \<^item> \<open>MalformedExpression\<close>: "Invalid cron expression format. Expected at least 6 parts."
  \<^item> \<open>InvalidRange e\<close>: "Invalid range in expression: e"
  \<^item> \<open>NoValidValues vs\<close>: "Value vs not in valid options for this component", \<open>vs\<close> a list
  \<^item> \<open>InvalidInterval e\<close>: "Invalid interval in expression: e"
  \<^item> \<open>ValueNotInDomain v\<close>: "Value v not in valid options for this component", \<open>v\<close> an integer
  \<^item> \<open>UnrecognizedFormat e\<close>: "unrecognized expression format: e"

  \<open>IndexError\<close> and \<open>ZeroDivisionError\<close> are what \<open>new_options[0]\<close> and \<open>%\<close> raise.
\<close>

datatype error =
    MalformedExpression
  | InvalidRange string
  | NoValidValues "int list"
  | InvalidInterval string
  | ValueNotInDomain int
  | UnrecognizedFormat string
  | IndexError
  | ZeroDivisionError

section \<open>The field expander\<close>

text \<open>\<open>xs[0]\<close>.\<close>

definition index0 :: "int list \<Rightarrow> error + int" where
  "index0 xs = (case xs of [] \<Rightarrow> Inl IndexError | x # _ \<Rightarrow> Inr x)"

text \<open>\<open>a % b\<close> on integers (the sign of the result follows the divisor, as HOL's \<open>mod\<close>).\<close>

definition py_mod :: "int \<Rightarrow> int \<Rightarrow> error + int" where
  "py_mod a b = (if b = 0 then Inl ZeroDivisionError else Inr (a mod b))"

text \<open>
  \<open>[x for x in xs if (x - new_options[0]) % interval == 0]\<close>, where \<open>xs\<close> is what is left
  of \<open>new_options\<close> to iterate over: the condition is evaluated once per element, so
  \<open>new_options[0]\<close> and \<open>%\<close> can only raise when there is an element.
\<close>

fun step_filter :: "int list \<Rightarrow> int \<Rightarrow> int list \<Rightarrow> error + int list" where
  "step_filter new_options interval [] = Inr []"
| "step_filter new_options interval (x # xs) =
     (case index0 new_options of
        Inl err \<Rightarrow> Inl err
      | Inr x0 \<Rightarrow>
          (case py_mod (x - x0) interval of
             Inl err \<Rightarrow> Inl err
           | Inr m \<Rightarrow>
               (case step_filter new_options interval xs of
                  Inl err \<Rightarrow> Inl err
                | Inr rest \<Rightarrow> Inr (if m = 0 then x # rest else rest))))"

lemma split_on_not_Nil: "split_on sep s \<noteq> []"
  by (induction s) auto

lemma split_on_two_length:
  "split_on sep s = [a, b] \<Longrightarrow> length a < length s"
proof (induction s arbitrary: a)
  case Nil
  then show ?case by simp
next
  case (Cons c cs)
  show ?case
  proof (cases "c = sep")
    case True
    with Cons.prems show ?thesis by simp
  next
    case False
    with Cons.prems obtain a' where a: "a = c # a'" and "split_on sep cs = [a', b]"
      using split_on_not_Nil [of sep cs]
      by (cases "split_on sep cs") auto
    with Cons.IH show ?thesis by simp
  qed
qed

lemma chomp_length: "length (chomp s) \<le> length s"
  by (simp add: chomp_def)

lemma interval_matches_shorter:
  "interval_matches e = Some (g1, g2) \<Longrightarrow> length g1 < length e"
  unfolding interval_matches_def
  using chomp_length [of e]
  by (auto split: list.splits if_splits dest!: split_on_two_length)

function expand_expression :: "string \<Rightarrow> int list \<Rightarrow> error + int list" where
  "expand_expression expression options =
     (if expression = ''*'' then Inr options
      else
       (case dash_matches expression of
          Some (g1, g2) \<Rightarrow>
            (let start = py_int g1; end = py_int g2 in
             if start > end then Inl (InvalidRange expression)
             else Inr (filter (\<lambda>x. start \<le> x \<and> x \<le> end) options))
        | None \<Rightarrow>
            (if list_matches expression then
               (let values = map py_int (split_on (CHR '','') expression);
                    res_val = filter (\<lambda>x. x \<in> set options) values in
                if res_val \<noteq> [] then Inr res_val else Inl (NoValidValues values))
             else
              (case interval_matches expression of
                 Some (base_expression, g2) \<Rightarrow>
                   (let interval = py_int g2 in
                    if interval \<le> 0 then Inl (InvalidInterval expression)
                    else
                     (case expand_expression base_expression options of
                        Inl err \<Rightarrow> Inl err
                      | Inr new_options \<Rightarrow> step_filter new_options interval new_options))
               | None \<Rightarrow>
                   (if single_matches expression then
                      (let value = py_int expression in
                       if value \<in> set options then Inr [value]
                       else Inl (ValueNotInDomain value))
                    else Inl (UnrecognizedFormat expression))))))"
  by pat_completeness auto

termination
  by (relation "measure (\<lambda>(e, _). length e)") (auto dest: interval_matches_shorter)

declare expand_expression.simps [simp del]

section \<open>The schedule model\<close>

text \<open>
  The attributes that \<open>AbstractCronExpression.__init__\<close> sets, shared by both classes.
\<close>

record AbstractCronExpression =
  raw_minute :: string
  raw_hour :: string
  raw_day_of_month :: string
  raw_month :: string
  raw_day_of_week :: string
  command :: string

text \<open>
  \<open>AbstractCronExpression.__init__\<close>. \<open>RawCronExpression\<close> inherits it unchanged, and its
  properties \<open>minute\<close>, ..., \<open>day_of_week\<close> return the raw attributes.
\<close>

definition AbstractCronExpression_init :: "string \<Rightarrow> error + AbstractCronExpression" where
  "AbstractCronExpression_init expression =
     (let parts = py_split expression in
      if length parts < 6 then Inl MalformedExpression
      else Inr \<lparr>raw_minute = parts ! 0, raw_hour = parts ! 1, raw_day_of_month = parts ! 2,
                raw_month = parts ! 3, raw_day_of_week = parts ! 4,
                command = py_join '' '' (drop 5 parts)\<rparr>)"

text \<open>
  A \<open>CronExpression\<close>: the inherited attributes and the five expanded fields
  (\<open>_minute\<close>, ..., \<open>_day_of_week\<close>, read through the properties of the same names).
\<close>

record CronExpression = AbstractCronExpression +
  minute :: "int list"
  hour :: "int list"
  day_of_month :: "int list"
  month :: "int list"
  day_of_week :: "int list"

text \<open>
  \<open>CronExpression.__init__\<close>: the five assignments in their order, the first exception
  ending the construction. \<open>list(range(60))\<close> is \<open>[0..59]\<close>, \<open>list(range(1, 32))\<close> is \<open>[1..31]\<close>.
\<close>

definition CronExpression_init :: "string \<Rightarrow> error + CronExpression" where
  "CronExpression_init expression =
     (case AbstractCronExpression_init expression of
        Inl err \<Rightarrow> Inl err
      | Inr self \<Rightarrow>
     (case expand_expression (raw_minute self) [0..59] of
        Inl err \<Rightarrow> Inl err
      | Inr mi \<Rightarrow>
     (case expand_expression (raw_hour self) [0..23] of
        Inl err \<Rightarrow> Inl err
      | Inr ho \<Rightarrow>
     (case expand_expression (raw_day_of_month self) [1..31] of
        Inl err \<Rightarrow> Inl err
      | Inr dm \<Rightarrow>
     (case expand_expression (raw_month self) [1..12] of
        Inl err \<Rightarrow> Inl err
      | Inr mo \<Rightarrow>
     (case expand_expression (raw_day_of_week self) [1..7] of
        Inl err \<Rightarrow> Inl err
      | Inr dw \<Rightarrow>
          Inr \<lparr>raw_minute = raw_minute self, raw_hour = raw_hour self,
               raw_day_of_month = raw_day_of_month self, raw_month = raw_month self,
               raw_day_of_week = raw_day_of_week self, command = command self,
               minute = mi, hour = ho, day_of_month = dm, month = mo,
               day_of_week = dw\<rparr>))))))"

text \<open>
  \<open>RawCronExpression.expand\<close>: the f-string joins the five raw fields and the command
  with single spaces, and \<open>CronExpression\<close> parses it again.
\<close>

definition RawCronExpression_expand :: "AbstractCronExpression \<Rightarrow> error + CronExpression" where
  "RawCronExpression_expand self =
     CronExpression_init
       (raw_minute self @ '' '' @ raw_hour self @ '' '' @ raw_day_of_month self @ '' '' @
        raw_month self @ '' '' @ raw_day_of_week self @ '' '' @ command self)"

section \<open>Notions used to state the properties\<close>

text \<open>A token: not empty, no whitespace in it.\<close>

definition token :: "string \<Rightarrow> bool" where
  "token t = (t \<noteq> [] \<and> (\<forall>c \<in> set t. \<not> is_space c))"

text \<open>
  A layout of tokens: whitespace \<open>ws\<close> before the first token, and after each token the
  whitespace that follows it. It is \<open>spaced\<close> when the whitespace between two tokens is
  not empty (the whitespace after the last token may be).
\<close>

fun layout :: "string \<Rightarrow> (string \<times> string) list \<Rightarrow> string" where
  "layout ws [] = ws"
| "layout ws ((t, ws') # rest) = ws @ t @ layout ws' rest"

fun spaced :: "(string \<times> string) list \<Rightarrow> bool" where
  "spaced [] = True"
| "spaced [(t, ws)] = (token t \<and> list_all is_space ws)"
| "spaced ((t, ws) # rest) = (token t \<and> ws \<noteq> [] \<and> list_all is_space ws \<and> spaced rest)"

section \<open>Facts about the string primitives\<close>

lemma split_on_no_sep: "sep \<notin> set a \<Longrightarrow> split_on sep a = [a]"
  by (induction a) auto

lemma split_on_append:
  "sep \<notin> set a \<Longrightarrow> split_on sep (a @ sep # r) = a # split_on sep r"
  by (induction a) auto

lemma split_on_join:
  "ps \<noteq> [] \<Longrightarrow> \<forall>p \<in> set ps. sep \<notin> set p \<Longrightarrow> split_on sep (py_join [sep] ps) = ps"
proof (induction "[sep]" ps rule: py_join.induct)
  case 1
  then show ?case by simp
next
  case (2 x)
  then show ?case by (simp add: split_on_no_sep)
next
  case (3 x y ys)
  then show ?case by (simp add: split_on_append)
qed

lemma split_on_parts_no_sep: "p \<in> set (split_on sep s) \<Longrightarrow> sep \<notin> set p"
proof (induction s arbitrary: p)
  case Nil
  then show ?case by simp
next
  case (Cons c cs)
  have ne: "split_on sep cs \<noteq> []" by (rule split_on_not_Nil)
  then have hd_in: "hd (split_on sep cs) \<in> set (split_on sep cs)" by simp
  have tl_in: "set (tl (split_on sep cs)) \<subseteq> set (split_on sep cs)"
    using ne by (cases "split_on sep cs") auto
  show ?case
  proof (cases "c = sep")
    case True
    with Cons show ?thesis by auto
  next
    case False
    with Cons.prems have "p = c # hd (split_on sep cs) \<or> p \<in> set (tl (split_on sep cs))"
      by simp
    then show ?thesis
      using False Cons.IH hd_in tl_in by auto
  qed
qed

lemma join_split_on: "py_join [sep] (split_on sep s) = s"
proof (induction s)
  case Nil
  then show ?case by simp
next
  case (Cons c cs)
  obtain p ps where sp: "split_on sep cs = p # ps"
    using split_on_not_Nil [of sep cs] by (cases "split_on sep cs") auto
  show ?case
  proof (cases "c = sep")
    case True
    with Cons sp show ?thesis by simp
  next
    case False
    with Cons sp show ?thesis by (cases ps) auto
  qed
qed

lemma set_py_join: "set (py_join sep ps) \<subseteq> set sep \<union> \<Union> (set ` set ps)"
  by (induction sep ps rule: py_join.induct) auto

lemma is_digit_not_space: "is_digit c \<Longrightarrow> \<not> is_space c"
  by (auto simp: is_digit_def is_space_def)

lemma is_digit_not_punct:
  "is_digit c \<Longrightarrow> c \<noteq> CHR ''-'' \<and> c \<noteq> CHR '','' \<and> c \<noteq> CHR ''/'' \<and> c \<noteq> CHR ''*'' \<and> c \<noteq> CHR 0x0A"
  by (auto simp: is_digit_def)

lemma digits12_all: "digits12 s \<Longrightarrow> c \<in> set s \<Longrightarrow> is_digit c"
  by (auto simp: digits12_def list_all_iff)

lemma digits12_not_Nil: "digits12 s \<Longrightarrow> s \<noteq> []"
  by (auto simp: digits12_def)

lemma digits12_last: "digits12 s \<Longrightarrow> is_digit (last s)"
  using digits12_all [of s "last s"] digits12_not_Nil [of s] by simp

lemma chomp_id: "s = [] \<or> last s \<noteq> CHR 0x0A \<Longrightarrow> chomp s = s"
  by (auto simp: chomp_def)

lemma chomp_digits_end: "digits12 d \<Longrightarrow> chomp (s @ d) = s @ d"
  using digits12_last [of d] digits12_not_Nil [of d] is_digit_not_punct [of "last d"]
  by (simp add: chomp_def)

lemma chomp_no_newline:
  assumes "CHR 0x0A \<notin> set s"
  shows "chomp s = s"
proof -
  have "s \<noteq> [] \<Longrightarrow> last s \<noteq> CHR 0x0A"
    by (metis assms last_in_set)
  then show ?thesis by (auto simp: chomp_def)
qed

lemma py_strip_digits: "digits12 s \<Longrightarrow> py_strip s = s"
proof -
  assume d: "digits12 s"
  then have ne: "s \<noteq> []" by (rule digits12_not_Nil)
  have h: "\<not> is_space (hd s)"
    using digits12_all [OF d, of "hd s"] ne is_digit_not_space by simp
  have l: "\<not> is_space (last s)"
    using digits12_last [OF d] is_digit_not_space by simp
  have 1: "dropWhile is_space s = s"
    using ne h by (cases s) auto
  have 2: "dropWhile is_space (rev s) = rev s"
    using ne l by (cases "rev s") (auto simp: last_rev hd_rev)
  show ?thesis by (simp add: py_strip_def 1 2)
qed

lemma py_int_digits: "digits12 s \<Longrightarrow> py_int s = foldl (\<lambda>n c. 10 * n + digit_val c) 0 s"
  by (simp add: py_int_def py_strip_digits)

lemma digits12_examples:
  "digits12 ''0''" "digits12 ''1''" "digits12 ''2''" "digits12 ''3''" "digits12 ''5''"
  "digits12 ''8''" "digits12 ''10''" "digits12 ''50''" "digits12 ''55''"
  by (simp_all add: digits12_def is_digit_def)

lemma py_int_examples:
  "py_int ''0'' = 0" "py_int ''1'' = 1" "py_int ''2'' = 2" "py_int ''3'' = 3"
  "py_int ''5'' = 5" "py_int ''8'' = 8" "py_int ''10'' = 10" "py_int ''50'' = 50"
  "py_int ''55'' = 55"
  by (simp_all add: py_int_digits digits12_examples digit_val_def)

section \<open>Facts about whitespace splitting\<close>

lemma split_ws_token_chars:
  "\<forall>c \<in> set t. \<not> is_space c \<Longrightarrow> split_ws cur (t @ rest) = split_ws (cur @ t) rest"
  by (induction t arbitrary: cur) auto

lemma split_ws_token_end: "token t \<Longrightarrow> split_ws [] t = [t]"
  using split_ws_token_chars [of t "[]" "[]"] by (simp add: token_def)

lemma split_ws_token_space:
  assumes "token t" "is_space c"
  shows "split_ws [] (t @ c # rest) = t # split_ws [] rest"
  using split_ws_token_chars [of t "[]" "c # rest"] assms by (simp add: token_def)

lemma is_space_blank: "is_space (CHR '' '')"
  by (simp add: is_space_def)

lemma py_split_join:
  "\<forall>t \<in> set ts. token t \<Longrightarrow> py_split (py_join '' '' ts) = ts"
proof (induction "'' ''" ts rule: py_join.induct)
  case 1
  then show ?case by (simp add: py_split_def)
next
  case (2 x)
  then show ?case by (simp add: py_split_def split_ws_token_end)
next
  case (3 x y ys)
  then show ?case
    by (simp add: py_split_def split_ws_token_space is_space_blank)
qed

lemma split_ws_tokens:
  "\<forall>c \<in> set cur. \<not> is_space c \<Longrightarrow> t \<in> set (split_ws cur s) \<Longrightarrow> token t"
proof (induction s arbitrary: cur)
  case Nil
  then show ?case by (auto simp: token_def split: if_splits)
next
  case (Cons c cs)
  show ?case
  proof (cases "is_space c")
    case True
    with Cons.prems have "t = cur \<and> cur \<noteq> [] \<or> t \<in> set (split_ws [] cs)"
      by (auto split: if_splits)
    then show ?thesis
      using Cons.prems(1) Cons.IH [of "[]"] by (auto simp: token_def)
  next
    case False
    with Cons.prems have "t \<in> set (split_ws (cur @ [c]) cs)" by simp
    moreover have "\<forall>c' \<in> set (cur @ [c]). \<not> is_space c'"
      using Cons.prems(1) False by simp
    ultimately show ?thesis using Cons.IH by blast
  qed
qed

lemma py_split_tokens: "t \<in> set (py_split s) \<Longrightarrow> token t"
  using split_ws_tokens [of "[]" t s] by (simp add: py_split_def)

text \<open>\<open>str.split()\<close> undoes any spaced layout.\<close>

lemma split_ws_skip: "list_all is_space ws \<Longrightarrow> split_ws [] (ws @ rest) = split_ws [] rest"
  by (induction ws) auto

lemma py_split_layout:
  "list_all is_space ws \<Longrightarrow> spaced tws \<Longrightarrow> py_split (layout ws tws) = map fst tws"
proof (induction tws arbitrary: ws rule: spaced.induct)
  case 1
  then show ?case
    using split_ws_skip [of ws "[]"] by (simp add: py_split_def)
next
  case (2 t ws')
  have "split_ws [] (ws @ t @ ws') = split_ws [] (t @ ws')"
    using 2(1) by (rule split_ws_skip)
  also have "\<dots> = split_ws t ws'"
    using split_ws_token_chars [of t "[]" ws'] 2(2) by (simp add: token_def)
  also have "\<dots> = [t]"
  proof (cases ws')
    case Nil
    with 2(2) show ?thesis by (simp add: token_def)
  next
    case (Cons c cs)
    with 2(2) have "is_space c" "list_all is_space cs" by simp_all
    with Cons 2(2) show ?thesis
      using split_ws_skip [of cs "[]"] by (simp add: token_def)
  qed
  finally show ?case by (simp add: py_split_def)
next
  case (3 t ws' p rest)
  from 3(3) have t: "token t" and ne: "ws' \<noteq> []" and sp: "list_all is_space ws'"
    and rest: "spaced (p # rest)" by simp_all
  from ne obtain c cs where ws': "ws' = c # cs" by (cases ws') auto
  with sp have c: "is_space c" and cs: "list_all is_space cs" by simp_all
  have ih: "split_ws [] (layout ws' (p # rest)) = map fst (p # rest)"
    using 3(1) [OF sp rest] by (simp add: py_split_def)
  have l: "layout ws' (p # rest) = c # layout cs (p # rest)"
    using ws' by (cases p) simp
  have "split_ws [] (ws @ t @ layout ws' (p # rest)) = split_ws [] (t @ layout ws' (p # rest))"
    using 3(2) by (rule split_ws_skip)
  also have "\<dots> = t # split_ws [] (layout cs (p # rest))"
    unfolding l using split_ws_token_space [OF t c] by simp
  also have "split_ws [] (layout cs (p # rest)) = split_ws [] (layout ws' (p # rest))"
    unfolding l using c by simp
  finally show ?case using ih by (simp add: py_split_def)
qed

section \<open>The rule that answers each notation\<close>

subsection \<open>Range notations\<close>

lemma range_groups_build:
  assumes "digits12 a" "digits12 b"
  shows "range_groups (a @ CHR ''-'' # b) = Some (a, b)"
proof -
  have na: "CHR ''-'' \<notin> set a" and nb: "CHR ''-'' \<notin> set b"
    using assms digits12_all is_digit_not_punct by blast+
  have "split_on (CHR ''-'') (a @ CHR ''-'' # b) = [a, b]"
    by (simp add: split_on_append [OF na] split_on_no_sep [OF nb])
  with assms show ?thesis by (simp add: range_groups_def)
qed

lemma range_groups_Some:
  assumes "range_groups s = Some (a, b)"
  shows "s = a @ CHR ''-'' # b \<and> digits12 a \<and> digits12 b"
proof -
  from assms have sp: "split_on (CHR ''-'') s = [a, b]" and d: "digits12 a" "digits12 b"
    by (auto simp: range_groups_def split: list.splits if_splits)
  have "py_join ''-'' (split_on (CHR ''-'') s) = s" by (rule join_split_on)
  with sp d show ?thesis by simp
qed

lemma range_groups_chars:
  assumes "range_groups s = Some (a, b)" "c \<in> set s"
  shows "is_digit c \<or> c = CHR ''-''"
proof -
  from range_groups_Some [OF assms(1)]
  have "s = a @ CHR ''-'' # b" "digits12 a" "digits12 b" by simp_all
  with assms(2) digits12_all show ?thesis by auto
qed

lemma dash_matches_range:
  assumes "digits12 a" "digits12 b"
  shows "dash_matches (a @ CHR ''-'' # b) = Some (a, b)"
  using chomp_digits_end [OF assms(2), of "a @ ''-''"] range_groups_build [OF assms]
  by (simp add: dash_matches_def)

lemma range_not_star: "digits12 a \<Longrightarrow> a @ CHR ''-'' # b \<noteq> ''*''"
  by (cases a) (auto simp: digits12_def is_digit_def)

lemma expand_range:
  assumes "digits12 a" "digits12 b"
  shows "expand_expression (a @ CHR ''-'' # b) D =
           (if py_int a \<le> py_int b
            then Inr (filter (\<lambda>x. py_int a \<le> x \<and> x \<le> py_int b) D)
            else Inl (InvalidRange (a @ CHR ''-'' # b)))"
  using range_not_star [OF assms(1), of b] dash_matches_range [OF assms]
  by (subst expand_expression.simps) (simp add: Let_def)

subsection \<open>List notations\<close>

lemma list_chars:
  assumes "\<forall>d \<in> set ds. digits12 d" "c \<in> set (py_join '','' ds)"
  shows "is_digit c \<or> c = CHR '',''"
  using assms set_py_join [of "'',''" ds] digits12_all by fastforce

lemma list_not_star:
  assumes "\<forall>d \<in> set ds. digits12 d"
  shows "py_join '','' ds \<noteq> ''*''"
proof
  assume "py_join '','' ds = ''*''"
  then have "CHR ''*'' \<in> set (py_join '','' ds)" by simp
  from list_chars [OF assms this] show False by (simp add: is_digit_def)
qed

lemma list_chomp:
  assumes "\<forall>d \<in> set ds. digits12 d"
  shows "chomp (py_join '','' ds) = py_join '','' ds"
proof (rule chomp_no_newline)
  show "CHR 0x0A \<notin> set (py_join '','' ds)"
    using list_chars [OF assms, of "CHR 0x0A"] by (auto simp: is_digit_def)
qed

lemma list_not_dash:
  assumes "\<forall>d \<in> set ds. digits12 d"
  shows "dash_matches (py_join '','' ds) = None"
proof (cases "dash_matches (py_join '','' ds)")
  case None
  then show ?thesis .
next
  case (Some g)
  obtain a b where g: "g = (a, b)" by (cases g)
  with Some have rg: "range_groups (py_join '','' ds) = Some (a, b)"
    by (simp add: dash_matches_def list_chomp [OF assms])
  then have "py_join '','' ds = a @ CHR ''-'' # b"
    using range_groups_Some by blast
  then have "CHR ''-'' \<in> set (py_join '','' ds)" by simp
  from list_chars [OF assms this] show ?thesis by (simp add: is_digit_def)
qed

lemma list_split:
  assumes "ds \<noteq> []" "\<forall>d \<in> set ds. digits12 d"
  shows "split_on (CHR '','') (py_join '','' ds) = ds"
proof (rule split_on_join [OF assms(1)])
  show "\<forall>p \<in> set ds. CHR '','' \<notin> set p"
    using assms(2) digits12_all is_digit_not_punct by blast
qed

lemma list_is_list:
  assumes "ds \<noteq> []" "\<forall>d \<in> set ds. digits12 d"
  shows "list_matches (py_join '','' ds)"
  using assms by (simp add: list_matches_def list_chomp list_split list_all_iff)

lemma expand_list:
  assumes "ds \<noteq> []" "\<forall>d \<in> set ds. digits12 d"
  shows "expand_expression (py_join '','' ds) D =
           (if filter (\<lambda>x. x \<in> set D) (map py_int ds) \<noteq> []
            then Inr (filter (\<lambda>x. x \<in> set D) (map py_int ds))
            else Inl (NoValidValues (map py_int ds)))"
  using list_not_star [OF assms(2)] list_not_dash [OF assms(2)] list_is_list [OF assms]
    list_split [OF assms]
  by (subst expand_expression.simps) (simp add: Let_def)

lemma expand_single:
  assumes "digits12 s"
  shows "expand_expression s D =
           (if py_int s \<in> set D then Inr [py_int s] else Inl (NoValidValues [py_int s]))"
  using expand_list [of "[s]" D] assms by simp

subsection \<open>Stepped notations\<close>

lemma step_filter_nonempty:
  assumes "C \<noteq> []" "k \<noteq> 0"
  shows "step_filter C k xs = Inr (filter (\<lambda>x. (x - hd C) mod k = 0) xs)"
  using assms
  by (induction xs) (auto simp: index0_def py_mod_def split: list.splits)

lemma step_filter_all:
  assumes "k \<noteq> 0"
  shows "step_filter C k C = Inr (filter (\<lambda>x. (x - hd C) mod k = 0) C)"
proof (cases "C = []")
  case True
  then show ?thesis by simp
next
  case False
  then show ?thesis using assms by (rule step_filter_nonempty)
qed

lemma base_chars:
  assumes "base_pattern g" "c \<in> set g"
  shows "is_digit c \<or> c = CHR ''-'' \<or> c = CHR ''*''"
  using assms range_groups_chars by (auto simp: base_pattern_def)

lemma stepped_chars:
  assumes "base_pattern g" "digits12 k" "c \<in> set (g @ CHR ''/'' # k)"
  shows "is_digit c \<or> c = CHR ''-'' \<or> c = CHR ''*'' \<or> c = CHR ''/''"
  using assms base_chars [OF assms(1)] digits12_all [OF assms(2)] by auto

lemma stepped_not_star: "g @ CHR ''/'' # k \<noteq> ''*''"
proof
  assume "g @ CHR ''/'' # k = ''*''"
  then have "set (g @ CHR ''/'' # k) = set ''*''" by (rule arg_cong)
  then show False by auto
qed

lemma stepped_chomp:
  assumes "base_pattern g" "digits12 k"
  shows "chomp (g @ CHR ''/'' # k) = g @ CHR ''/'' # k"
proof (rule chomp_no_newline)
  show "CHR 0x0A \<notin> set (g @ CHR ''/'' # k)"
    using stepped_chars [OF assms, of "CHR 0x0A"] by (auto simp: is_digit_def)
qed

lemma stepped_not_dash:
  assumes "base_pattern g" "digits12 k"
  shows "dash_matches (g @ CHR ''/'' # k) = None"
proof (cases "dash_matches (g @ CHR ''/'' # k)")
  case None
  then show ?thesis .
next
  case (Some p)
  obtain a b where "p = (a, b)" by (cases p)
  with Some have "range_groups (g @ CHR ''/'' # k) = Some (a, b)"
    by (simp add: dash_matches_def stepped_chomp [OF assms])
  from range_groups_chars [OF this, of "CHR ''/''"] show ?thesis
    by (simp add: is_digit_def)
qed

lemma stepped_not_list:
  assumes "base_pattern g" "digits12 k"
  shows "\<not> list_matches (g @ CHR ''/'' # k)"
proof
  assume l: "list_matches (g @ CHR ''/'' # k)"
  have "CHR '','' \<notin> set (g @ CHR ''/'' # k)"
    using stepped_chars [OF assms, of "CHR '',''"] by (auto simp: is_digit_def)
  then have "split_on (CHR '','') (g @ CHR ''/'' # k) = [g @ CHR ''/'' # k]"
    by (rule split_on_no_sep)
  with l have "digits12 (g @ CHR ''/'' # k)"
    by (simp add: list_matches_def stepped_chomp [OF assms])
  from digits12_all [OF this, of "CHR ''/''"] show False
    by (simp add: is_digit_def)
qed

lemma stepped_interval:
  assumes "base_pattern g" "digits12 k"
  shows "interval_matches (g @ CHR ''/'' # k) = Some (g, k)"
proof -
  have ng: "CHR ''/'' \<notin> set g"
    using base_chars [OF assms(1), of "CHR ''/''"] by (auto simp: is_digit_def)
  have nk: "CHR ''/'' \<notin> set k"
    using digits12_all [OF assms(2), of "CHR ''/''"] by (auto simp: is_digit_def)
  have "split_on (CHR ''/'') (g @ CHR ''/'' # k) = [g, k]"
    by (simp add: split_on_append [OF ng] split_on_no_sep [OF nk])
  then have "split_on (CHR ''/'') (chomp (g @ CHR ''/'' # k)) = [g, k]"
    by (simp add: stepped_chomp [OF assms])
  then show ?thesis
    using assms by (simp add: interval_matches_def base_pattern_def)
qed

lemma expand_stepped:
  assumes "base_pattern g" "digits12 k"
  shows "expand_expression (g @ CHR ''/'' # k) D =
           (if py_int k \<le> 0 then Inl (InvalidInterval (g @ CHR ''/'' # k))
            else (case expand_expression g D of
                    Inl err \<Rightarrow> Inl err
                  | Inr C \<Rightarrow> Inr (filter (\<lambda>x. (x - hd C) mod py_int k = 0) C)))"
  using stepped_not_star [of g k] stepped_not_dash [OF assms] stepped_not_list [OF assms]
    stepped_interval [OF assms]
  by (subst expand_expression.simps)
     (auto simp add: Let_def step_filter_all split: sum.splits)

subsection \<open>Any notation\<close>

lemma list_matches_chars:
  assumes "list_matches e" "c \<in> set (chomp e)"
  shows "is_digit c \<or> c = CHR '',''"
proof -
  let ?ps = "split_on (CHR '','') (chomp e)"
  have d: "\<forall>p \<in> set ?ps. digits12 p"
    using assms(1) by (simp add: list_matches_def list_all_iff)
  have "chomp e = py_join '','' ?ps"
    by (simp add: join_split_on)
  with assms(2) have "c \<in> set (py_join '','' ?ps)" by simp
  from list_chars [OF d this] show ?thesis .
qed

lemma list_matches_not_star: "list_matches e \<Longrightarrow> e \<noteq> ''*''"
  by (auto simp: list_matches_def chomp_def digits12_def is_digit_def)

lemma list_matches_not_dash:
  assumes "list_matches e"
  shows "dash_matches e = None"
proof (cases "dash_matches e")
  case None
  then show ?thesis .
next
  case (Some p)
  obtain a b where "p = (a, b)" by (cases p)
  with Some have "range_groups (chomp e) = Some (a, b)"
    by (simp add: dash_matches_def)
  then have "chomp e = a @ CHR ''-'' # b"
    using range_groups_Some by blast
  then have "CHR ''-'' \<in> set (chomp e)" by simp
  from list_matches_chars [OF assms this] show ?thesis by (simp add: is_digit_def)
qed

lemma expand_list_matches:
  assumes "list_matches e"
  shows "expand_expression e D =
           (if filter (\<lambda>x. x \<in> set D) (map py_int (split_on (CHR '','') e)) \<noteq> []
            then Inr (filter (\<lambda>x. x \<in> set D) (map py_int (split_on (CHR '','') e)))
            else Inl (NoValidValues (map py_int (split_on (CHR '','') e))))"
  using list_matches_not_star [OF assms] list_matches_not_dash [OF assms] assms
  by (subst expand_expression.simps) (simp add: Let_def)

lemma single_is_list: "single_matches e \<Longrightarrow> list_matches e"
proof -
  assume "single_matches e"
  then have d: "digits12 (chomp e)" by (simp add: single_matches_def)
  have "CHR '','' \<notin> set (chomp e)"
    using digits12_all [OF d, of "CHR '',''"] by (auto simp: is_digit_def)
  then have "split_on (CHR '','') (chomp e) = [chomp e]" by (rule split_on_no_sep)
  with d show ?thesis by (simp add: list_matches_def)
qed

lemma interval_matches_Some:
  "interval_matches e = Some (g, k) \<Longrightarrow> base_pattern g \<and> digits12 k"
  by (auto simp: interval_matches_def split: list.splits if_splits)

lemma expand_base:
  assumes "base_pattern g" "expand_expression g D = Inr C"
  shows "\<exists>P. C = filter P D"
proof (cases "g = ''*''")
  case True
  with assms(2) have "C = D" by (simp add: expand_expression.simps)
  then have "C = filter (\<lambda>_. True) D" by simp
  then show ?thesis by blast
next
  case False
  with assms(1) obtain a b where "range_groups g = Some (a, b)"
    by (auto simp: base_pattern_def)
  then have g: "g = a @ CHR ''-'' # b" and d: "digits12 a" "digits12 b"
    using range_groups_Some by blast+
  from assms(2) show ?thesis
    unfolding g expand_range [OF d] by (auto split: if_splits)
qed

lemma expand_base_error:
  assumes "base_pattern g" "expand_expression g D = Inl err"
  shows "err = InvalidRange g"
proof (cases "g = ''*''")
  case True
  with assms(2) show ?thesis by (simp add: expand_expression.simps)
next
  case False
  with assms(1) obtain a b where "range_groups g = Some (a, b)"
    by (auto simp: base_pattern_def)
  then have g: "g = a @ CHR ''-'' # b" and d: "digits12 a" "digits12 b"
    using range_groups_Some by blast+
  from assms(2) show ?thesis
    unfolding g expand_range [OF d] by (auto split: if_splits)
qed

lemma expand_not_list:
  assumes "\<not> list_matches e" "expand_expression e D = Inr r"
  shows "\<exists>P. r = filter P D"
proof -
  note u = assms(2) [unfolded expand_expression.simps [of e D]]
  show ?thesis
  proof (cases "e = ''*''")
    case True
    with u have "r = filter (\<lambda>_. True) D" by simp
    then show ?thesis by blast
  next
    case ns: False
    show ?thesis
    proof (cases "dash_matches e")
      case (Some p)
      with u ns show ?thesis
        by (auto simp: Let_def split: if_splits prod.splits)
    next
      case nd: None
      show ?thesis
      proof (cases "interval_matches e")
        case None
        with u assms(1) ns nd single_is_list [of e] show ?thesis
          by (auto simp: Let_def split: if_splits)
      next
        case (Some p)
        obtain g k where p: "p = (g, k)" by (cases p)
        with Some have bp: "base_pattern g"
          using interval_matches_Some by blast
        from u assms(1) ns nd Some p obtain C where
          C: "expand_expression g D = Inr C" and
          r: "r = filter (\<lambda>x. (x - hd C) mod py_int k = 0) C"
          by (auto simp: Let_def step_filter_all split: if_splits sum.splits)
        from expand_base [OF bp C] obtain P where "C = filter P D" ..
        with r have "r = filter (\<lambda>x. P x \<and> (x - hd C) mod py_int k = 0) D"
          by (simp add: conj_commute)
        then show ?thesis by blast
      qed
    qed
  qed
qed

lemma expand_members:
  assumes "expand_expression e D = Inr r"
  shows "set r \<subseteq> set D"
proof (cases "list_matches e")
  case True
  with assms show ?thesis
    unfolding expand_list_matches [OF True] by (auto split: if_splits)
next
  case False
  from expand_not_list [OF False assms] show ?thesis by auto
qed

text \<open>
  The single-value rule is never reached: a notation that its pattern accepts is
  accepted by the list pattern, which is tried first. So no expansion fails with
  \<open>ValueNotInDomain\<close>.
\<close>

lemma single_value_rule_unreachable:
  "expand_expression e D \<noteq> Inl (ValueNotInDomain v)"
proof (cases "list_matches e")
  case True
  then show ?thesis
    unfolding expand_list_matches [OF True] by simp
next
  case nl: False
  show ?thesis
  proof
    assume a: "expand_expression e D = Inl (ValueNotInDomain v)"
    note u = a [unfolded expand_expression.simps [of e D]]
    show False
    proof (cases "interval_matches e")
      case None
      with u nl single_is_list [of e] show False
        by (auto simp: Let_def split: if_splits option.splits prod.splits)
    next
      case (Some p)
      obtain g k where p: "p = (g, k)" by (cases p)
      with Some have bp: "base_pattern g"
        using interval_matches_Some by blast
      from u nl Some p have "expand_expression g D = Inl (ValueNotInDomain v)"
        by (auto simp: Let_def step_filter_all
                 split: if_splits option.splits prod.splits sum.splits)
      from expand_base_error [OF bp this] show False by simp
    qed
  qed
qed

section \<open>The claims about the field expander\<close>

text \<open>
  C1: on a stepped notation \<open>base/step\<close> with a step of 1 or more, whose base (\<open>*\<close> or a
  range) expands to the empty sequence, the expansion returns the empty sequence: no
  error is raised, \<open>new_options[0]\<close> is never evaluated. So \<open>50-55/2\<close> on 0..23 is \<open>[]\<close>.
\<close>

theorem C1_stepped_empty_base:
  assumes "g = ''*'' \<or> (g = a @ ''-'' @ b \<and> digits12 a \<and> digits12 b)" "digits12 k"
    and "1 \<le> py_int k" "expand_expression g D = Inr []"
  shows "expand_expression (g @ ''/'' @ k) D = Inr [] \<and>
         expand_expression ''50-55/2'' [0..23] = Inr []"
proof -
  have bp: "base_pattern g"
    using assms(1) range_groups_build [of a b] by (auto simp: base_pattern_def)
  have 1: "expand_expression (g @ ''/'' @ k) D = Inr []"
    using expand_stepped [OF bp assms(2), of D] assms(3,4) by simp
  have 2: "expand_expression ''50-55/2'' [0..23] = Inr []"
    by code_simp
  from 1 2 show ?thesis ..
qed

theorem C1_stepped_empty_base_witness:
  "digits12 ''50'' \<and> digits12 ''55'' \<and> digits12 ''2'' \<and> 1 \<le> py_int ''2'' \<and>
   expand_expression ''50-55'' [0..23] = Inr [] \<and>
   expand_expression ''50-55/2'' [0..23] = Inr []"
proof -
  have g: "''50-55'' = ''*'' \<or> (''50-55'' = ''50'' @ ''-'' @ ''55'' \<and> digits12 ''50'' \<and> digits12 ''55'')"
    by (simp add: digits12_examples)
  have k: "1 \<le> py_int ''2''" by (simp add: py_int_examples)
  have b: "expand_expression ''50-55'' [0..23] = Inr []" by code_simp
  show ?thesis
    using C1_stepped_empty_base [OF g digits12_examples(3) k b] b k
    by (simp add: digits12_examples)
qed

text \<open>
  C2, on the input where the code departs from it: \<open>10\<close> is a bare number that is not a
  member of the domain 1..5. The list pattern accepts a lone number, so the list rule
  answers, with its own error \<open>NoValidValues [10]\<close>; the single-value rule and its error
  \<open>ValueNotInDomain 10\<close> are never reached. A member of the domain, such as \<open>3\<close>, expands
  to the one-element sequence.
\<close>

theorem C2_single_value_error:
  "digits12 ''10'' \<and> py_int ''10'' = 10 \<and> 10 \<notin> set [1, 2, 3, 4, 5 :: int] \<and>
   expand_expression ''10'' [1, 2, 3, 4, 5] = Inl (NoValidValues [10]) \<and>
   expand_expression ''10'' [1, 2, 3, 4, 5] \<noteq> Inl (ValueNotInDomain 10) \<and>
   expand_expression ''3'' [1, 2, 3, 4, 5] = Inr [3]"
  using expand_single [of "''10''" "[1, 2, 3, 4, 5]"] expand_single [of "''3''" "[1, 2, 3, 4, 5]"]
  by (simp add: digits12_examples py_int_examples)

text \<open>
  C3 fails as stated: on the domain 1..5 the list \<open>5,1,3\<close> expands to \<open>[5, 1, 3]\<close>, which
  is not in the domain's order, and the list \<open>3,3\<close> expands to \<open>[3, 3]\<close>, which repeats 3.
\<close>

theorem C3_list_order_counterexample:
  "expand_expression ''5,1,3'' [1, 2, 3, 4, 5] = Inr [5, 1, 3] \<and>
   \<not> subseq [5, 1, 3] [1, 2, 3, 4, 5 :: int] \<and>
   expand_expression ''3,3'' [1, 2, 3, 4, 5] = Inr [3, 3] \<and>
   \<not> distinct [3, 3 :: int]"
proof -
  have a: "expand_expression ''5,1,3'' [1, 2, 3, 4, 5] = Inr [5, 1, 3]" by code_simp
  have b: "expand_expression ''3,3'' [1, 2, 3, 4, 5] = Inr [3, 3]" by code_simp
  from a b show ?thesis by simp
qed

text \<open>
  C3 as amended: whenever the expansion of a notation succeeds, the result is a
  subsequence of the domain, in the domain's order, with no duplicates when the domain
  has none, unless the notation is a list of two or more entries; for such a list the
  result is the listed values that are members of the domain, in the order of the list
  and as often as they are listed.
\<close>

theorem C3_subsequence_amended:
  assumes "expand_expression e D = Inr r"
  shows "if list_matches e \<and> 2 \<le> length (split_on (CHR '','') e)
         then r = filter (\<lambda>x. x \<in> set D) (map py_int (split_on (CHR '','') e))
         else subseq r D \<and> (distinct D \<longrightarrow> distinct r)"
proof (cases "list_matches e")
  case True
  let ?vs = "map py_int (split_on (CHR '','') e)"
  from assms have r: "r = filter (\<lambda>x. x \<in> set D) ?vs" and ne: "r \<noteq> []"
    unfolding expand_list_matches [OF True] by (auto split: if_splits)
  show ?thesis
  proof (cases "2 \<le> length (split_on (CHR '','') e)")
    case True
    with \<open>list_matches e\<close> r show ?thesis by simp
  next
    case False
    moreover have "length (split_on (CHR '','') e) \<noteq> 0"
      using split_on_not_Nil [of "CHR '',''" e] by simp
    ultimately have "length (split_on (CHR '','') e) = 1"
      by linarith
    then obtain p where "split_on (CHR '','') e = [p]"
      by (auto simp: length_Suc_conv)
    with r ne have "r = [py_int p]" "py_int p \<in> set D"
      by (auto split: if_splits)
    with False show ?thesis by (simp add: subseq_singleton_left)
  qed
next
  case False
  from expand_not_list [OF False assms] obtain P where "r = filter P D" ..
  with False show ?thesis by simp
qed

theorem C3_subsequence_amended_witness:
  "expand_expression ''2-8/2'' [1..9] = Inr [2, 4, 6, 8] \<and>
   \<not> list_matches ''2-8/2'' \<and> subseq [2, 4, 6, 8] [1..9] \<and> distinct [2, 4, 6, 8 :: int] \<and>
   expand_expression ''5,1,3'' [1, 2, 3, 4, 5] = Inr [5, 1, 3] \<and>
   list_matches ''5,1,3'' \<and> split_on (CHR '','') ''5,1,3'' = [''5'', ''1'', ''3''] \<and>
   [5, 1, 3] = filter (\<lambda>x. x \<in> set [1, 2, 3, 4, 5]) (map py_int [''5'', ''1'', ''3''])"
proof -
  have a: "expand_expression ''2-8/2'' [1..9] = Inr [2, 4, 6, 8]" by code_simp
  have b: "expand_expression ''5,1,3'' [1, 2, 3, 4, 5] = Inr [5, 1, 3]" by code_simp
  have c: "\<not> list_matches ''2-8/2''" "list_matches ''5,1,3''"
    "split_on (CHR '','') ''5,1,3'' = [''5'', ''1'', ''3'']"
    by code_simp+
  have d: "distinct [1..9]" by simp
  show ?thesis
    using C3_subsequence_amended [OF a] C3_subsequence_amended [OF b] a b c d
    by simp
qed

text \<open>
  C4: on a stepped notation \<open>base/step\<close>, where the base is \<open>*\<close> or a range of two numbers
  of one or two digits and the step a number of one or two digits, the expansion fails
  with \<open>InvalidInterval\<close> when the step is 0 or less, whatever the domain; otherwise, when
  the base expands to a non-empty sequence \<open>C\<close>, it gives the elements \<open>x\<close> of \<open>C\<close> with
  \<open>(x - C[0]) mod step = 0\<close>, in the order of \<open>C\<close>. So \<open>2-8/2\<close> on 1..9 is \<open>[2, 4, 6, 8]\<close>
  and \<open>*/2\<close> on 1..9 is \<open>[1, 3, 5, 7, 9]\<close>.
\<close>

theorem C4_stepped:
  assumes "g = ''*'' \<or> (g = a @ ''-'' @ b \<and> digits12 a \<and> digits12 b)" "digits12 k"
  shows "(py_int k \<le> 0 \<longrightarrow>
            expand_expression (g @ ''/'' @ k) D = Inl (InvalidInterval (g @ ''/'' @ k))) \<and>
         (0 < py_int k \<and> expand_expression g D = Inr C \<and> C \<noteq> [] \<longrightarrow>
            expand_expression (g @ ''/'' @ k) D =
              Inr (filter (\<lambda>x. (x - C ! 0) mod py_int k = 0) C)) \<and>
         expand_expression ''2-8/2'' [1..9] = Inr [2, 4, 6, 8] \<and>
         expand_expression ''*/2'' [1..9] = Inr [1, 3, 5, 7, 9]"
proof -
  have bp: "base_pattern g"
    using assms(1) range_groups_build [of a b] by (auto simp: base_pattern_def)
  have e: "expand_expression (g @ ''/'' @ k) D =
             (if py_int k \<le> 0 then Inl (InvalidInterval (g @ ''/'' @ k))
              else (case expand_expression g D of
                      Inl err \<Rightarrow> Inl err
                    | Inr C \<Rightarrow> Inr (filter (\<lambda>x. (x - hd C) mod py_int k = 0) C)))"
    using expand_stepped [OF bp assms(2), of D] by simp
  have 1: "py_int k \<le> 0 \<longrightarrow>
             expand_expression (g @ ''/'' @ k) D = Inl (InvalidInterval (g @ ''/'' @ k))"
    unfolding e by simp
  have 2: "0 < py_int k \<and> expand_expression g D = Inr C \<and> C \<noteq> [] \<longrightarrow>
             expand_expression (g @ ''/'' @ k) D =
               Inr (filter (\<lambda>x. (x - C ! 0) mod py_int k = 0) C)"
    unfolding e by (auto simp: hd_conv_nth)
  have 3: "expand_expression ''2-8/2'' [1..9] = Inr [2, 4, 6, 8]"
    by code_simp
  have 4: "expand_expression ''*/2'' [1..9] = Inr [1, 3, 5, 7, 9]"
    by code_simp
  from 1 2 3 4 show ?thesis by blast
qed

theorem C4_stepped_witness:
  "digits12 ''0'' \<and> digits12 ''2'' \<and> digits12 ''8'' \<and> py_int ''0'' \<le> 0 \<and> 0 < py_int ''2'' \<and>
   expand_expression ''2-8'' [1..9] = Inr [2, 3, 4, 5, 6, 7, 8] \<and>
   expand_expression ''2-8/2'' [1..9] =
     Inr (filter (\<lambda>x. (x - [2, 3, 4, 5, 6, 7, 8] ! 0) mod 2 = 0) [2, 3, 4, 5, 6, 7, 8]) \<and>
   expand_expression ''*/0'' [1..9] = Inl (InvalidInterval ''*/0'')"
proof -
  have b: "expand_expression ''2-8'' [1..9] = Inr [2, 3, 4, 5, 6, 7, 8]"
    by code_simp
  have g: "''2-8'' = ''*'' \<or> (''2-8'' = ''2'' @ ''-'' @ ''8'' \<and> digits12 ''2'' \<and> digits12 ''8'')"
    by (simp add: digits12_examples)
  have s: "''*'' = ''*'' \<or> (''*'' = a @ ''-'' @ b \<and> digits12 a \<and> digits12 b)" for a b
    by simp
  show ?thesis
    using C4_stepped [OF g digits12_examples(3), of "[1..9]" "[2, 3, 4, 5, 6, 7, 8]"]
      C4_stepped [OF s digits12_examples(1), of "[1..9]" "[]"] b
    by (simp add: digits12_examples py_int_examples)
qed

text \<open>
  C5: a range notation \<open>a-b\<close> of two numbers of one or two digits expands to the members
  of the domain between \<open>a\<close> and \<open>b\<close>, in the domain's order, when \<open>a \<le> b\<close>; that is the
  empty sequence, not an error, when the domain has no member there; and the expansion
  fails with \<open>InvalidRange\<close> when \<open>a > b\<close>.
\<close>

theorem C5_range:
  assumes "digits12 a" "digits12 b"
  shows "(py_int a \<le> py_int b \<longrightarrow>
            expand_expression (a @ ''-'' @ b) D =
              Inr (filter (\<lambda>x. py_int a \<le> x \<and> x \<le> py_int b) D)) \<and>
         (py_int a \<le> py_int b \<and> (\<forall>x \<in> set D. \<not> (py_int a \<le> x \<and> x \<le> py_int b)) \<longrightarrow>
            expand_expression (a @ ''-'' @ b) D = Inr []) \<and>
         (py_int a > py_int b \<longrightarrow>
            expand_expression (a @ ''-'' @ b) D = Inl (InvalidRange (a @ ''-'' @ b)))"
proof -
  have "filter (\<lambda>x. py_int a \<le> x \<and> x \<le> py_int b) D = []"
    if "\<forall>x \<in> set D. \<not> (py_int a \<le> x \<and> x \<le> py_int b)"
    using that by (simp add: filter_empty_conv)
  then show ?thesis
    by (simp add: expand_range [OF assms])
qed

theorem C5_range_witness:
  "digits12 ''2'' \<and> digits12 ''4'' \<and> digits12 ''50'' \<and> digits12 ''55'' \<and> digits12 ''5'' \<and>
   py_int ''2'' = 2 \<and> py_int ''4'' = 4 \<and> py_int ''50'' = 50 \<and> py_int ''55'' = 55 \<and> py_int ''5'' = 5 \<and>
   expand_expression ''2-4'' [1, 2, 3, 4, 5] = Inr [2, 3, 4] \<and>
   expand_expression ''50-55'' [0..23] = Inr [] \<and>
   expand_expression ''5-2'' [1, 2, 3, 4, 5] = Inl (InvalidRange ''5-2'')"
proof -
  have d: "digits12 ''2''" "digits12 ''4''" "digits12 ''50''" "digits12 ''55''" "digits12 ''5''"
    by (simp_all add: digits12_def is_digit_def)
  have v: "py_int ''2'' = 2" "py_int ''4'' = 4" "py_int ''50'' = 50" "py_int ''55'' = 55"
    "py_int ''5'' = 5"
    by (simp_all add: py_int_digits d digit_val_def)
  have e: "\<forall>x \<in> set [0..23]. \<not> (50 \<le> x \<and> x \<le> (55::int))"
    by auto
  show ?thesis
    using C5_range [OF d(1) d(2), of "[1, 2, 3, 4, 5]"]
      C5_range [OF d(3) d(4), of "[0..23]"]
      C5_range [OF d(5) d(1), of "[1, 2, 3, 4, 5]"] d v e
    by simp
qed

text \<open>
  C6: a list notation \<open>d1,d2,...,dn\<close> of two or more numbers of one or two digits
  expands to the listed values that are members of the domain, in the order of the list,
  and fails, with \<open>NoValidValues\<close>, exactly when no listed value is a member of the
  domain. So \<open>5,1,3\<close> expands to \<open>[5, 1, 3]\<close> on a domain that has all three.
\<close>

theorem C6_list:
  assumes "2 \<le> length ds" "\<forall>d \<in> set ds. digits12 d"
  shows "expand_expression (py_join '','' ds) D =
           (if \<exists>d \<in> set ds. py_int d \<in> set D
            then Inr (filter (\<lambda>x. x \<in> set D) (map py_int ds))
            else Inl (NoValidValues (map py_int ds))) \<and>
         ((\<exists>err. expand_expression (py_join '','' ds) D = Inl err) \<longleftrightarrow>
            (\<forall>d \<in> set ds. py_int d \<notin> set D)) \<and>
         (5 \<in> set D \<and> 1 \<in> set D \<and> 3 \<in> set D \<longrightarrow>
            expand_expression ''5,1,3'' D = Inr [5, 1, 3])"
proof -
  from assms(1) have ne: "ds \<noteq> []" by auto
  have f: "filter (\<lambda>x. x \<in> set D) (map py_int ds) \<noteq> [] \<longleftrightarrow> (\<exists>d \<in> set ds. py_int d \<in> set D)"
    by (auto simp: filter_empty_conv)
  have 1: "expand_expression (py_join '','' ds) D =
             (if \<exists>d \<in> set ds. py_int d \<in> set D
              then Inr (filter (\<lambda>x. x \<in> set D) (map py_int ds))
              else Inl (NoValidValues (map py_int ds)))"
    unfolding expand_list [OF ne assms(2)] f ..
  have 2: "(\<exists>err. expand_expression (py_join '','' ds) D = Inl err) \<longleftrightarrow>
             (\<forall>d \<in> set ds. py_int d \<notin> set D)"
    unfolding 1 by auto
  have 3: "expand_expression ''5,1,3'' D = Inr [5, 1, 3]"
    if "5 \<in> set D \<and> 1 \<in> set D \<and> 3 \<in> set D"
    using expand_list [of "[''5'', ''1'', ''3'']" D] that
    by (simp add: digits12_examples py_int_examples)
  from 1 2 3 show ?thesis by blast
qed

theorem C6_list_witness:
  "2 \<le> length [''1'', ''3'', ''5''] \<and> digits12 ''1'' \<and> digits12 ''3'' \<and> digits12 ''5'' \<and>
   digits12 ''8'' \<and> digits12 ''10'' \<and>
   expand_expression ''1,3,5'' [1, 2, 3, 4] = Inr [1, 3] \<and>
   expand_expression ''5,1,3'' [1, 2, 3, 4, 5] = Inr [5, 1, 3] \<and>
   expand_expression ''8,10'' [1, 2, 3, 4, 5] = Inl (NoValidValues [8, 10])"
proof -
  have l: "2 \<le> length [''1'', ''3'', ''5'']" "2 \<le> length [''8'', ''10'']" by simp_all
  have d: "\<forall>d \<in> set [''1'', ''3'', ''5'']. digits12 d" "\<forall>d \<in> set [''8'', ''10'']. digits12 d"
    by (simp_all add: digits12_examples)
  show ?thesis
    using C6_list [OF l(1) d(1), of "[1, 2, 3, 4]"]
      C6_list [OF l(1) d(1), of "[1, 2, 3, 4, 5]"]
      C6_list [OF l(2) d(2), of "[1, 2, 3, 4, 5]"]
    by (simp add: py_int_examples digits12_examples)
qed

text \<open>
  C9: whenever the expansion of a notation succeeds, every integer of the result is a
  member of the domain, whichever of the rules (wildcard, range, list, stepped, single
  value) gave the result.
\<close>

theorem C9_members_of_domain:
  assumes "expand_expression e D = Inr r" "x \<in> set r"
  shows "x \<in> set D"
  using expand_members [OF assms(1)] assms(2) by auto

theorem C9_members_of_domain_witness:
  "expand_expression ''*/2'' [1..9] = Inr [1, 3, 5, 7, 9] \<and> 5 \<in> set [1, 3, 5, 7, 9 :: int] \<and>
   5 \<in> set [1..9] \<and>
   expand_expression ''5,1,30'' [1..9] = Inr [5, 1] \<and> 1 \<in> set [5, 1 :: int]"
proof -
  have a: "expand_expression ''*/2'' [1..9] = Inr [1, 3, 5, 7, 9]" by code_simp
  have b: "expand_expression ''5,1,30'' [1..9] = Inr [5, 1]" by code_simp
  have c: "5 \<in> set [1, 3, 5, 7, 9 :: int]" by simp
  show ?thesis
    using C9_members_of_domain [OF a c] a b by simp
qed

section \<open>The claims about the schedule model\<close>

lemma init_depends_on_tokens:
  "py_split e = py_split e' \<Longrightarrow> AbstractCronExpression_init e = AbstractCronExpression_init e'"
  by (simp add: AbstractCronExpression_init_def)

lemma cron_init_depends_on_init:
  "AbstractCronExpression_init e = AbstractCronExpression_init e' \<Longrightarrow>
   CronExpression_init e = CronExpression_init e'"
  by (simp add: CronExpression_init_def)

text \<open>
  C7: an expression that splits on whitespace into fewer than 6 tokens is rejected with
  \<open>MalformedExpression\<close>, whatever its fields; one that splits into 6 tokens or more is
  accepted, its first five tokens stored unchanged as the raw fields and the remaining
  tokens, joined by single spaces, as the command, which is the 6th token when there
  are exactly 6. The tokens are the ones of any spaced layout of the expression.
\<close>

theorem C7_construction:
  "(length (py_split e) < 6 \<longrightarrow> AbstractCronExpression_init e = Inl MalformedExpression) \<and>
   (6 \<le> length (py_split e) \<longrightarrow>
      AbstractCronExpression_init e =
        Inr \<lparr>raw_minute = py_split e ! 0, raw_hour = py_split e ! 1,
             raw_day_of_month = py_split e ! 2, raw_month = py_split e ! 3,
             raw_day_of_week = py_split e ! 4,
             command = py_join '' '' (drop 5 (py_split e))\<rparr>) \<and>
   (length (py_split e) = 6 \<longrightarrow> py_join '' '' (drop 5 (py_split e)) = py_split e ! 5) \<and>
   (list_all is_space ws \<and> spaced tws \<longrightarrow> py_split (layout ws tws) = map fst tws)"
proof -
  have 1: "length (py_split e) < 6 \<longrightarrow> AbstractCronExpression_init e = Inl MalformedExpression"
    by (simp add: AbstractCronExpression_init_def)
  have 2: "6 \<le> length (py_split e) \<longrightarrow>
      AbstractCronExpression_init e =
        Inr \<lparr>raw_minute = py_split e ! 0, raw_hour = py_split e ! 1,
             raw_day_of_month = py_split e ! 2, raw_month = py_split e ! 3,
             raw_day_of_week = py_split e ! 4,
             command = py_join '' '' (drop 5 (py_split e))\<rparr>"
    by (simp add: AbstractCronExpression_init_def Let_def)
  have 3: "py_join '' '' (drop 5 (py_split e)) = py_split e ! 5" if "length (py_split e) = 6"
  proof -
    from that have "drop 5 (py_split e) = [py_split e ! 5]"
      by (simp add: list_eq_iff_nth_eq)
    then show ?thesis by simp
  qed
  have 4: "list_all is_space ws \<and> spaced tws \<longrightarrow> py_split (layout ws tws) = map fst tws"
    using py_split_layout by blast
  from 1 2 3 4 show ?thesis by blast
qed

theorem C7_construction_witness:
  "py_split ''0 0 1 1'' = [''0'', ''0'', ''1'', ''1''] \<and>
   AbstractCronExpression_init ''0 0 1 1'' = Inl MalformedExpression \<and>
   py_split ''0 0 1 1 1 /usr/bin/command'' = [''0'', ''0'', ''1'', ''1'', ''1'', ''/usr/bin/command''] \<and>
   AbstractCronExpression_init ''0 0 1 1 1 /usr/bin/command'' =
     Inr \<lparr>raw_minute = ''0'', raw_hour = ''0'', raw_day_of_month = ''1'', raw_month = ''1'',
          raw_day_of_week = ''1'', command = ''/usr/bin/command''\<rparr> \<and>
   AbstractCronExpression_init ''*/5  0-12 1,15 */2 1-5 cmd -a -b   --c=d'' =
     Inr \<lparr>raw_minute = ''*/5'', raw_hour = ''0-12'', raw_day_of_month = ''1,15'',
          raw_month = ''*/2'', raw_day_of_week = ''1-5'', command = ''cmd -a -b --c=d''\<rparr> \<and>
   list_all is_space '' '' \<and> spaced [(''0'', [CHR 0x09, CHR '' '']), (''1'', [CHR 0x0A])] \<and>
   py_split (layout '' '' [(''0'', [CHR 0x09, CHR '' '']), (''1'', [CHR 0x0A])]) = [''0'', ''1'']"
proof -
  have w: "list_all is_space '' ''" "spaced [(''0'', [CHR 0x09, CHR '' '']), (''1'', [CHR 0x0A])]"
    by (simp_all add: is_space_def token_def)
  have a: "py_split ''0 0 1 1'' = [''0'', ''0'', ''1'', ''1'']" by code_simp
  have b: "py_split ''0 0 1 1 1 /usr/bin/command'' =
             [''0'', ''0'', ''1'', ''1'', ''1'', ''/usr/bin/command'']" by code_simp
  have c: "py_split ''*/5  0-12 1,15 */2 1-5 cmd -a -b   --c=d'' =
             [''*/5'', ''0-12'', ''1,15'', ''*/2'', ''1-5'', ''cmd'', ''-a'', ''-b'', ''--c=d'']"
    by code_simp
  show ?thesis
    using C7_construction [of "''0 0 1 1''"]
      C7_construction [of "''0 0 1 1 1 /usr/bin/command''"]
      C7_construction [of "''*/5  0-12 1,15 */2 1-5 cmd -a -b   --c=d''"]
      C7_construction [of _ "'' ''" "[(''0'', [CHR 0x09, CHR '' '']), (''1'', [CHR 0x0A])]"] w
    unfolding a b c by simp
qed

text \<open>
  C8: the five fields of a schedule are expanded in the order minute, hour, day of
  month, month, day of week, against 0..59, 0..23, 1..31, 1..12 and 1..7; the error of
  the construction is the error of the leftmost field whose expansion fails, whatever
  the fields to its right do, and the result is either that error or the complete
  expanded schedule.
\<close>

theorem C8_leftmost_error:
  assumes "AbstractCronExpression_init e = Inr s"
  shows "(expand_expression (raw_minute s) [0..59] = Inl err \<longrightarrow>
            CronExpression_init e = Inl err) \<and>
         (expand_expression (raw_minute s) [0..59] = Inr mi \<and>
          expand_expression (raw_hour s) [0..23] = Inl err \<longrightarrow>
            CronExpression_init e = Inl err) \<and>
         (expand_expression (raw_minute s) [0..59] = Inr mi \<and>
          expand_expression (raw_hour s) [0..23] = Inr ho \<and>
          expand_expression (raw_day_of_month s) [1..31] = Inl err \<longrightarrow>
            CronExpression_init e = Inl err) \<and>
         (expand_expression (raw_minute s) [0..59] = Inr mi \<and>
          expand_expression (raw_hour s) [0..23] = Inr ho \<and>
          expand_expression (raw_day_of_month s) [1..31] = Inr dm \<and>
          expand_expression (raw_month s) [1..12] = Inl err \<longrightarrow>
            CronExpression_init e = Inl err) \<and>
         (expand_expression (raw_minute s) [0..59] = Inr mi \<and>
          expand_expression (raw_hour s) [0..23] = Inr ho \<and>
          expand_expression (raw_day_of_month s) [1..31] = Inr dm \<and>
          expand_expression (raw_month s) [1..12] = Inr mo \<and>
          expand_expression (raw_day_of_week s) [1..7] = Inl err \<longrightarrow>
            CronExpression_init e = Inl err) \<and>
         (expand_expression (raw_minute s) [0..59] = Inr mi \<and>
          expand_expression (raw_hour s) [0..23] = Inr ho \<and>
          expand_expression (raw_day_of_month s) [1..31] = Inr dm \<and>
          expand_expression (raw_month s) [1..12] = Inr mo \<and>
          expand_expression (raw_day_of_week s) [1..7] = Inr dw \<longrightarrow>
            CronExpression_init e =
              Inr \<lparr>raw_minute = raw_minute s, raw_hour = raw_hour s,
                   raw_day_of_month = raw_day_of_month s, raw_month = raw_month s,
                   raw_day_of_week = raw_day_of_week s, command = command s,
                   minute = mi, hour = ho, day_of_month = dm, month = mo,
                   day_of_week = dw\<rparr>)"
  by (simp add: CronExpression_init_def assms)

theorem C8_leftmost_error_witness:
  "AbstractCronExpression_init ''0 */0 5-2 1 1 cmd'' =
     Inr \<lparr>raw_minute = ''0'', raw_hour = ''*/0'', raw_day_of_month = ''5-2'', raw_month = ''1'',
          raw_day_of_week = ''1'', command = ''cmd''\<rparr> \<and>
   expand_expression ''0'' [0..59] = Inr [0] \<and>
   expand_expression ''*/0'' [0..23] = Inl (InvalidInterval ''*/0'') \<and>
   expand_expression ''5-2'' [1..31] = Inl (InvalidRange ''5-2'') \<and>
   CronExpression_init ''0 */0 5-2 1 1 cmd'' = Inl (InvalidInterval ''*/0'') \<and>
   AbstractCronExpression_init ''5-2 */0 1 1 1 cmd'' =
     Inr \<lparr>raw_minute = ''5-2'', raw_hour = ''*/0'', raw_day_of_month = ''1'', raw_month = ''1'',
          raw_day_of_week = ''1'', command = ''cmd''\<rparr> \<and>
   expand_expression ''5-2'' [0..59] = Inl (InvalidRange ''5-2'') \<and>
   CronExpression_init ''5-2 */0 1 1 1 cmd'' = Inl (InvalidRange ''5-2'') \<and>
   AbstractCronExpression_init ''0 0 1 1 1 /usr/bin/command'' =
     Inr \<lparr>raw_minute = ''0'', raw_hour = ''0'', raw_day_of_month = ''1'', raw_month = ''1'',
          raw_day_of_week = ''1'', command = ''/usr/bin/command''\<rparr> \<and>
   CronExpression_init ''0 0 1 1 1 /usr/bin/command'' =
     Inr \<lparr>raw_minute = ''0'', raw_hour = ''0'', raw_day_of_month = ''1'', raw_month = ''1'',
          raw_day_of_week = ''1'', command = ''/usr/bin/command'',
          minute = [0], hour = [0], day_of_month = [1], month = [1], day_of_week = [1]\<rparr>"
proof -
  have s1: "AbstractCronExpression_init ''0 */0 5-2 1 1 cmd'' =
     Inr \<lparr>raw_minute = ''0'', raw_hour = ''*/0'', raw_day_of_month = ''5-2'', raw_month = ''1'',
          raw_day_of_week = ''1'', command = ''cmd''\<rparr>"
    by code_simp
  have s2: "AbstractCronExpression_init ''5-2 */0 1 1 1 cmd'' =
     Inr \<lparr>raw_minute = ''5-2'', raw_hour = ''*/0'', raw_day_of_month = ''1'', raw_month = ''1'',
          raw_day_of_week = ''1'', command = ''cmd''\<rparr>"
    by code_simp
  have s3: "AbstractCronExpression_init ''0 0 1 1 1 /usr/bin/command'' =
     Inr \<lparr>raw_minute = ''0'', raw_hour = ''0'', raw_day_of_month = ''1'', raw_month = ''1'',
          raw_day_of_week = ''1'', command = ''/usr/bin/command''\<rparr>"
    by code_simp
  have m: "expand_expression ''0'' [0..59] = Inr [0]" by code_simp
  have h: "expand_expression ''*/0'' [0..23] = Inl (InvalidInterval ''*/0'')" by code_simp
  have d: "expand_expression ''5-2'' [1..31] = Inl (InvalidRange ''5-2'')" by code_simp
  have m2: "expand_expression ''5-2'' [0..59] = Inl (InvalidRange ''5-2'')" by code_simp
  have ok: "expand_expression ''0'' [0..23] = Inr [0]" "expand_expression ''1'' [1..31] = Inr [1]"
    "expand_expression ''1'' [1..12] = Inr [1]" "expand_expression ''1'' [1..7] = Inr [1]"
    by code_simp+
  show ?thesis
    using C8_leftmost_error [OF s1, of "InvalidInterval ''*/0''" "[0]"]
      C8_leftmost_error [OF s2, of "InvalidRange ''5-2''"]
      C8_leftmost_error [OF s3, of _ "[0]" "[0]" "[1]" "[1]" "[1]"]
      s1 s2 s3 m h d m2 ok
    by simp
qed

text \<open>
  C10: for an expression of 6 tokens or more, building the raw schedule and calling its
  \<open>expand\<close>, which joins the raw fields and the command with single spaces and parses
  the result again, gives what building the expanded schedule from the expression
  itself gives: the same raw fields, command and five expanded sequences, or the same
  error.
\<close>

theorem C10_expand_roundtrip:
  assumes "6 \<le> length (py_split e)"
  shows "\<exists>raw. AbstractCronExpression_init e = Inr raw \<and>
               RawCronExpression_expand raw = CronExpression_init e"
proof -
  let ?raw = "\<lparr>raw_minute = py_split e ! 0, raw_hour = py_split e ! 1,
               raw_day_of_month = py_split e ! 2, raw_month = py_split e ! 3,
               raw_day_of_week = py_split e ! 4,
               command = py_join '' '' (drop 5 (py_split e))\<rparr>"
  let ?again = "raw_minute ?raw @ '' '' @ raw_hour ?raw @ '' '' @ raw_day_of_month ?raw @ '' '' @
                raw_month ?raw @ '' '' @ raw_day_of_week ?raw @ '' '' @ command ?raw"
  have init: "AbstractCronExpression_init e = Inr ?raw"
    using assms by (simp add: AbstractCronExpression_init_def Let_def)
  from assms obtain p0 p1 p2 p3 p4 p5 rest where
    parts: "py_split e = p0 # p1 # p2 # p3 # p4 # p5 # rest"
    by (auto simp: numeral_eq_Suc Suc_le_length_iff)
  have again: "?again = py_join '' '' (py_split e)"
    unfolding parts by simp
  have "\<forall>t \<in> set (py_split e). token t"
    using py_split_tokens by blast
  then have "py_split ?again = py_split e"
    unfolding again by (rule py_split_join)
  then have "AbstractCronExpression_init ?again = AbstractCronExpression_init e"
    by (rule init_depends_on_tokens)
  then have "CronExpression_init ?again = CronExpression_init e"
    by (rule cron_init_depends_on_init)
  then have "RawCronExpression_expand ?raw = CronExpression_init e"
    by (simp only: RawCronExpression_expand_def)
  with init show ?thesis by blast
qed

theorem C10_expand_roundtrip_witness:
  "6 \<le> length (py_split ''*/5  0-12 1,15 */2 1-5 cmd -a   -b'') \<and>
   AbstractCronExpression_init ''*/5  0-12 1,15 */2 1-5 cmd -a   -b'' =
     Inr \<lparr>raw_minute = ''*/5'', raw_hour = ''0-12'', raw_day_of_month = ''1,15'',
          raw_month = ''*/2'', raw_day_of_week = ''1-5'', command = ''cmd -a -b''\<rparr> \<and>
   RawCronExpression_expand
     \<lparr>raw_minute = ''*/5'', raw_hour = ''0-12'', raw_day_of_month = ''1,15'',
      raw_month = ''*/2'', raw_day_of_week = ''1-5'', command = ''cmd -a -b''\<rparr> =
     CronExpression_init ''*/5  0-12 1,15 */2 1-5 cmd -a   -b''"
proof -
  have l: "6 \<le> length (py_split ''*/5  0-12 1,15 */2 1-5 cmd -a   -b'')"
    by code_simp
  have i: "AbstractCronExpression_init ''*/5  0-12 1,15 */2 1-5 cmd -a   -b'' =
     Inr \<lparr>raw_minute = ''*/5'', raw_hour = ''0-12'', raw_day_of_month = ''1,15'',
          raw_month = ''*/2'', raw_day_of_week = ''1-5'', command = ''cmd -a -b''\<rparr>"
    by code_simp
  from C10_expand_roundtrip [OF l] l i show ?thesis by auto
qed

end
